theory Spec2Isabelle
  imports Complex_Main "HOL-Library.Word" "HOL-Library.Multiset" "HOL-Library.Sublist"
    "HOL-Library.AList"
begin

section \<open>Strings\<close>

text \<open>
  A JavaScript string is a sequence of 16-bit code units. \<open>js\<close> writes a literal of the
  Latin-1 range as such a sequence.
\<close>

type_synonym jsstring = "16 word list"

definition js :: "string \<Rightarrow> jsstring" where
  "js s = map (\<lambda>c. of_nat (of_char c)) s"

text \<open>
  \<open>String.prototype.trim\<close> removes the code units of ECMAScript's WhiteSpace and
  LineTerminator productions from both ends: TAB, LF, VT, FF, CR, SPACE, NBSP, U+1680,
  U+2000 to U+200A, U+2028, U+2029, U+202F, U+205F, U+3000 and U+FEFF.
\<close>

definition isWhiteSpace :: "16 word \<Rightarrow> bool" where
  "isWhiteSpace c \<longleftrightarrow>
     c \<in> {0x0009, 0x000A, 0x000B, 0x000C, 0x000D, 0x0020, 0x00A0, 0x1680,
          0x2028, 0x2029, 0x202F, 0x205F, 0x3000, 0xFEFF}
     \<or> (0x2000 \<le> c \<and> c \<le> 0x200A)"

definition trim :: "jsstring \<Rightarrow> jsstring" where
  "trim s = rev (dropWhile isWhiteSpace (rev (dropWhile isWhiteSpace s)))"

section \<open>The task record and the component state\<close>

text \<open>
  A \<open>Date\<close> object holds a time value: a whole number of milliseconds since the epoch,
  or NaN (an invalid date, as \<open>new Date("no date")\<close> gives). \<open>getTime\<close> returns
  the time value, \<open>None\<close> standing for NaN.
\<close>

datatype jsdate = Date int | Invalid_Date

fun getTime :: "jsdate \<Rightarrow> int option" where
  "getTime (Date t) = Some t"
| "getTime Invalid_Date = None"

text \<open>
  \<open>interface Todo\<close>. The identifier comes from \<open>Date.now()\<close>, a whole number of
  milliseconds, and is an \<open>int\<close> here. \<open>dateCreated?: Date\<close> is optional: \<open>None\<close> is
  the absent (or \<open>undefined\<close>) property. The record of \<open>src/src/TodoApp.tsx\<close> has no
  such property at all, which is \<open>None\<close> as well.
\<close>

record Todo =
  id_todo :: int
  title :: jsstring
  note_todo :: jsstring
  completed :: bool
  dateCreated :: "jsdate option"

text \<open>The \<open>useState\<close> cells of the component \<open>TodoApp\<close>.\<close>

record AppState =
  todos :: "Todo list"
  inputTitle :: jsstring
  inputNote :: jsstring
  showInputs :: bool
  isDarkTheme :: bool

section \<open>Add, toggle, delete\<close>

text \<open>
  \<open>addTodo\<close> reads the clock twice: \<open>now\<close> is what \<open>Date.now()\<close> returns and
  \<open>created\<close> the time value of \<open>new Date()\<close>. Both are inputs of the model.
\<close>

definition addTodo :: "int \<Rightarrow> int \<Rightarrow> AppState \<Rightarrow> AppState" where
  "addTodo now created st =
     (if trim (inputTitle st) \<noteq> [] \<and> trim (inputNote st) \<noteq> [] then
        let newTodo = \<lparr> id_todo = now, title = inputTitle st, note_todo = inputNote st,
                        completed = False, dateCreated = Some (Date created) \<rparr>
        in st \<lparr> todos := todos st @ [newTodo], inputTitle := [], inputNote := [],
                showInputs := False \<rparr>
      else st)"

text \<open>\<open>addTodo\<close> of \<open>src/src/TodoApp.tsx\<close>: the same, with no creation date.\<close>

definition addTodo0 :: "int \<Rightarrow> AppState \<Rightarrow> AppState" where
  "addTodo0 now st =
     (if trim (inputTitle st) \<noteq> [] \<and> trim (inputNote st) \<noteq> [] then
        let newTodo = \<lparr> id_todo = now, title = inputTitle st, note_todo = inputNote st,
                        completed = False, dateCreated = None \<rparr>
        in st \<lparr> todos := todos st @ [newTodo], inputTitle := [], inputNote := [],
                showInputs := False \<rparr>
      else st)"

definition toggleTodo :: "int \<Rightarrow> AppState \<Rightarrow> AppState" where
  "toggleTodo i st =
     st \<lparr> todos := map (\<lambda>todo. if id_todo todo = i
                                then todo \<lparr> completed := \<not> completed todo \<rparr>
                                else todo) (todos st) \<rparr>"

definition deleteTodo :: "int \<Rightarrow> AppState \<Rightarrow> AppState" where
  "deleteTodo i st = st \<lparr> todos := filter (\<lambda>todo. id_todo todo \<noteq> i) (todos st) \<rparr>"

subsection \<open>Sessions\<close>

text \<open>
  A user action: typing a title and a note and pressing the add button (with the two
  clock readings of that moment), or clicking the toggle or delete control of a record.
\<close>

datatype action = Add jsstring jsstring int int | Toggle int | Delete int

fun step :: "AppState \<Rightarrow> action \<Rightarrow> AppState" where
  "step st (Add t n now created) = addTodo now created (st \<lparr> inputTitle := t, inputNote := n \<rparr>)"
| "step st (Toggle i) = toggleTodo i st"
| "step st (Delete i) = deleteTodo i st"

definition run :: "action list \<Rightarrow> AppState \<Rightarrow> AppState" where
  "run acts st = foldl step st acts"

text \<open>The same with \<open>addTodo\<close> of \<open>src/src/TodoApp.tsx\<close>.\<close>

fun step0 :: "AppState \<Rightarrow> action \<Rightarrow> AppState" where
  "step0 st (Add t n now created) = addTodo0 now (st \<lparr> inputTitle := t, inputNote := n \<rparr>)"
| "step0 st (Toggle i) = toggleTodo i st"
| "step0 st (Delete i) = deleteTodo i st"

definition run0 :: "action list \<Rightarrow> AppState \<Rightarrow> AppState" where
  "run0 acts st = foldl step0 st acts"

definition initial :: AppState where
  "initial = \<lparr> todos = [], inputTitle = [], inputNote = [], showInputs = False,
               isDarkTheme = False \<rparr>"

text \<open>The values \<open>Date.now()\<close> returned to the additions of a session, in order.\<close>

fun clock_readings :: "action list \<Rightarrow> int list" where
  "clock_readings [] = []"
| "clock_readings (Add t n now created # acts) = now # clock_readings acts"
| "clock_readings (a # acts) = clock_readings acts"

section \<open>The display order\<close>

text \<open>
  The comparator of \<open>sortedTodos\<close>. A record without a creation date counts with the
  time 0; \<open>new Date(a.dateCreated).getTime()\<close> is the time value of the date, NaN for an
  invalid one, and a difference with NaN is NaN (\<open>None\<close>). Time values are whole numbers
  below \<open>2^53\<close> in magnitude, so the sign of the floating-point difference
  \<open>dateB - dateA\<close> is the sign of the exact difference, and only the sign is used.
\<close>

definition compareFn :: "Todo \<Rightarrow> Todo \<Rightarrow> int option" where
  "compareFn a b =
     (let dateA = (case dateCreated a of Some d \<Rightarrow> getTime d | None \<Rightarrow> Some 0);
          dateB = (case dateCreated b of Some d \<Rightarrow> getTime d | None \<Rightarrow> Some 0)
      in case (dateB, dateA) of (Some y, Some x) \<Rightarrow> Some (y - x) | _ \<Rightarrow> None)"

text \<open>
  \<open>Array.prototype.sort\<close> with a comparator. It is stable, and it reads the result \<open>v\<close>
  of \<open>cmp a b\<close> as: \<open>a\<close> before \<open>b\<close> when \<open>v < 0\<close>, \<open>b\<close> before \<open>a\<close> when
  \<open>v > 0\<close>, and the order of the input when \<open>v\<close> is 0 or NaN. For a consistent comparator
  that fixes the result, which stable insertion computes. For an inconsistent one (an
  invalid date makes \<open>compareFn\<close> so) ECMAScript leaves the order to the implementation;
  the properties of the order below are stated for valid dates.
\<close>

fun insort_by :: "('a \<Rightarrow> 'a \<Rightarrow> int option) \<Rightarrow> 'a \<Rightarrow> 'a list \<Rightarrow> 'a list" where
  "insort_by cmp a [] = [a]"
| "insort_by cmp a (b # bs) =
     (if (case cmp a b of Some v \<Rightarrow> v \<le> 0 | None \<Rightarrow> True) then a # b # bs
      else b # insort_by cmp a bs)"

definition sort_by :: "('a \<Rightarrow> 'a \<Rightarrow> int option) \<Rightarrow> 'a list \<Rightarrow> 'a list" where
  "sort_by cmp xs = foldr (insort_by cmp) xs []"

text \<open>The sorted view as a function of the state: \<open>[...todos].sort(compareFn)\<close>.\<close>

definition sortedTodos :: "AppState \<Rightarrow> Todo list" where
  "sortedTodos st = sort_by compareFn (todos st)"

text \<open>
  The same with the arrays as objects of a heap: a reference is a position in the list of
  the arrays allocated so far. \<open>[...todos]\<close> allocates a copy, \<open>sort\<close> overwrites the
  array it is called on and returns the reference to it. A reference that is not allocated
  cannot arise in the program; the functions return \<open>None\<close> for one.
\<close>

type_synonym ref = nat
type_synonym heap = "Todo list list"

definition spread :: "heap \<Rightarrow> ref \<Rightarrow> (heap \<times> ref) option" where
  "spread h r = (if r < length h then Some (h @ [h ! r], length h) else None)"

definition sort_in_place ::
  "(Todo \<Rightarrow> Todo \<Rightarrow> int option) \<Rightarrow> heap \<Rightarrow> ref \<Rightarrow> (heap \<times> ref) option" where
  "sort_in_place cmp h r =
     (if r < length h then Some (h[r := sort_by cmp (h ! r)], r) else None)"

definition sortedTodos_heap :: "heap \<Rightarrow> ref \<Rightarrow> (heap \<times> ref) option" where
  "sortedTodos_heap h todos_ref =
     (case spread h todos_ref of
        None \<Rightarrow> None
      | Some (h1, copy) \<Rightarrow> sort_in_place compareFn h1 copy)"

text \<open>The time the comparator uses for a record, when its date is valid.\<close>

definition created_ms :: "Todo \<Rightarrow> int" where
  "created_ms t = (case dateCreated t of Some (Date x) \<Rightarrow> x | _ \<Rightarrow> 0)"

section \<open>Persistence\<close>
























subsection \<open>Sample data\<close>

definition milk :: Todo where
  "milk = \<lparr> id_todo = 1700000000000, title = js ''Buy milk'', note_todo = js ''2 liters'',
            completed = False, dateCreated = Some (Date 1700000000000) \<rparr>"

definition bread :: Todo where
  "bread = \<lparr> id_todo = 1700000000007, title = js ''Buy bread'', note_todo = js ''rye'',
             completed = True, dateCreated = Some (Date 1700000000008) \<rparr>"

definition twin :: Todo where
  "twin = \<lparr> id_todo = 1700000000000, title = js ''Call home'', note_todo = js ''after six'',
            completed = True, dateCreated = Some (Date 1700000000000) \<rparr>"

definition shelf :: AppState where
  "shelf = \<lparr> todos = [milk, bread], inputTitle = js ''Call home'',
             inputNote = js ''after six'', showInputs = True, isDarkTheme = False \<rparr>"

definition crowded :: AppState where
  "crowded = \<lparr> todos = [milk, bread, twin], inputTitle = [], inputNote = js '' '',
               showInputs = False, isDarkTheme = True \<rparr>"

definition undated :: Todo where
  "undated = \<lparr> id_todo = 1690000000000, title = js ''Old task'', note_todo = js ''no date'',
               completed = False, dateCreated = None \<rparr>"

definition moon :: Todo where
  "moon = \<lparr> id_todo = 1690000000001, title = js ''Moon'', note_todo = js ''July 1969'',
            completed = True, dateCreated = Some (Date (- 14182940000)) \<rparr>"

definition eggs :: Todo where
  "eggs = \<lparr> id_todo = 1700000000016, title = js ''Buy eggs'', note_todo = js ''a dozen'',
            completed = False, dateCreated = Some (Date 1700000000016) \<rparr>"

definition pantry :: AppState where
  "pantry = \<lparr> todos = [bread, milk, eggs], inputTitle = [], inputNote = [],
              showInputs = False, isDarkTheme = False \<rparr>"

definition attic :: AppState where
  "attic = \<lparr> todos = [moon, undated], inputTitle = [], inputNote = [],
             showInputs = False, isDarkTheme = False \<rparr>"






section \<open>Properties of the in-memory operations\<close>

lemma all_dropWhile: "(\<forall>x\<in>set (dropWhile P xs). P x) \<longleftrightarrow> (\<forall>x\<in>set xs. P x)"
  by (induction xs) auto

lemma trim_empty_iff: "trim s = [] \<longleftrightarrow> (\<forall>c\<in>set s. isWhiteSpace c)"
  by (simp add: trim_def all_dropWhile)

lemma todos_toggleTodo:
  "todos (toggleTodo i st) =
     map (\<lambda>todo. if id_todo todo = i then todo \<lparr> completed := \<not> completed todo \<rparr> else todo)
       (todos st)"
  by (simp add: toggleTodo_def)

lemma todos_deleteTodo:
  "todos (deleteTodo i st) = filter (\<lambda>todo. id_todo todo \<noteq> i) (todos st)"
  by (simp add: deleteTodo_def)

lemma map_toggle_other:
  assumes "i \<notin> id_todo ` set xs"
  shows "map (\<lambda>todo. if id_todo todo = i then todo \<lparr> completed := \<not> completed todo \<rparr>
                     else todo) xs = xs"
  using assms by (intro map_idI) auto

lemma toggleTodo_absent: "i \<notin> id_todo ` set (todos st) \<Longrightarrow> toggleTodo i st = st"
proof -
  assume "i \<notin> id_todo ` set (todos st)"
  then show ?thesis by (simp add: toggleTodo_def map_toggle_other)
qed

lemma deleteTodo_absent: "i \<notin> id_todo ` set (todos st) \<Longrightarrow> deleteTodo i st = st"
proof -
  assume absent: "i \<notin> id_todo ` set (todos st)"
  then have "filter (\<lambda>todo. id_todo todo \<noteq> i) (todos st) = todos st"
    by (auto simp: filter_id_conv)
  then show ?thesis by (simp add: deleteTodo_def)
qed

lemma ids_toggleTodo: "map id_todo (todos (toggleTodo i st)) = map id_todo (todos st)"
  by (simp add: toggleTodo_def)

lemma ids_deleteTodo:
  "map id_todo (todos (deleteTodo i st)) = filter (\<lambda>k. k \<noteq> i) (map id_todo (todos st))"
  by (simp add: deleteTodo_def filter_map comp_def)

lemma ids_addTodo:
  "map id_todo (todos (addTodo now created st)) =
     (if trim (inputTitle st) \<noteq> [] \<and> trim (inputNote st) \<noteq> []
      then map id_todo (todos st) @ [now] else map id_todo (todos st))"
  by (simp add: addTodo_def Let_def)

text \<open>
  Claim C1. \<open>toggleTodo i\<close> keeps the length and the order of the collection. At every
  position the identifier, title, note and creation date are kept; the completion flag is
  negated where the record's identifier is \<open>i\<close> and kept elsewhere, so a record with
  another identifier is unchanged. When exactly one record has the identifier \<open>i\<close>, the
  result is the collection with the flag of that record negated. When no record has the
  identifier, the state is returned as it was.
\<close>

theorem toggleTodo_flips_matching:
  "length (todos (toggleTodo i st)) = length (todos st) \<and>
   (\<forall>n<length (todos st).
      id_todo (todos (toggleTodo i st) ! n) = id_todo (todos st ! n) \<and>
      title (todos (toggleTodo i st) ! n) = title (todos st ! n) \<and>
      note_todo (todos (toggleTodo i st) ! n) = note_todo (todos st ! n) \<and>
      dateCreated (todos (toggleTodo i st) ! n) = dateCreated (todos st ! n) \<and>
      completed (todos (toggleTodo i st) ! n) =
        (if id_todo (todos st ! n) = i then \<not> completed (todos st ! n)
         else completed (todos st ! n)) \<and>
      (id_todo (todos st ! n) \<noteq> i \<longrightarrow> todos (toggleTodo i st) ! n = todos st ! n)) \<and>
   (\<forall>pre r post. todos st = pre @ r # post \<and> id_todo r = i \<and>
        i \<notin> id_todo ` set pre \<and> i \<notin> id_todo ` set post \<longrightarrow>
        todos (toggleTodo i st) = pre @ r \<lparr> completed := \<not> completed r \<rparr> # post) \<and>
   (i \<notin> id_todo ` set (todos st) \<longrightarrow> toggleTodo i st = st)"
proof (intro conjI allI impI)
  show "length (todos (toggleTodo i st)) = length (todos st)"
    by (simp add: todos_toggleTodo)
next
  fix n
  assume n: "n < length (todos st)"
  then show "id_todo (todos (toggleTodo i st) ! n) = id_todo (todos st ! n)"
    and "title (todos (toggleTodo i st) ! n) = title (todos st ! n)"
    and "note_todo (todos (toggleTodo i st) ! n) = note_todo (todos st ! n)"
    and "dateCreated (todos (toggleTodo i st) ! n) = dateCreated (todos st ! n)"
    and "completed (todos (toggleTodo i st) ! n) =
        (if id_todo (todos st ! n) = i then \<not> completed (todos st ! n)
         else completed (todos st ! n))"
    by (simp_all add: todos_toggleTodo)
  assume "id_todo (todos st ! n) \<noteq> i"
  with n show "todos (toggleTodo i st) ! n = todos st ! n"
    by (simp add: todos_toggleTodo)
next
  fix pre r post
  assume split: "todos st = pre @ r # post \<and> id_todo r = i \<and>
        i \<notin> id_todo ` set pre \<and> i \<notin> id_todo ` set post"
  then show "todos (toggleTodo i st) = pre @ r \<lparr> completed := \<not> completed r \<rparr> # post"
    by (simp add: todos_toggleTodo map_toggle_other)
next
  assume "i \<notin> id_todo ` set (todos st)"
  then show "toggleTodo i st = st" by (rule toggleTodo_absent)
qed

theorem toggleTodo_flips_matching_witness:
  "todos shelf = [milk] @ bread # [] \<and> id_todo bread = 1700000000007 \<and>
   1700000000007 \<notin> id_todo ` set [milk] \<and>
   todos (toggleTodo 1700000000007 shelf) = [milk, bread \<lparr> completed := False \<rparr>] \<and>
   42 \<notin> id_todo ` set (todos shelf) \<and> toggleTodo 42 shelf = shelf"
proof -
  have a: "todos shelf = [milk] @ bread # [] \<and> id_todo bread = 1700000000007 \<and>
      1700000000007 \<notin> id_todo ` set [milk] \<and> 1700000000007 \<notin> id_todo ` set ([]::Todo list)"
    by (simp add: shelf_def milk_def bread_def)
  have b: "42 \<notin> id_todo ` set (todos shelf)"
    by (simp add: shelf_def milk_def bread_def)
  note t = toggleTodo_flips_matching [of 1700000000007 shelf]
  note u = toggleTodo_flips_matching [of 42 shelf]
  have "todos (toggleTodo 1700000000007 shelf) = [milk] @ bread \<lparr> completed := \<not> completed bread \<rparr> # []"
    by (rule t [THEN conjunct2, THEN conjunct2, THEN conjunct1, rule_format]) (rule a)
  moreover have "toggleTodo 42 shelf = shelf"
    by (rule u [THEN conjunct2, THEN conjunct2, THEN conjunct2, rule_format]) (rule b)
  moreover have "completed bread" by (simp add: bread_def)
  ultimately show ?thesis using a b by simp
qed

text \<open>
  Claim C2. \<open>deleteTodo i\<close> leaves a subsequence of the collection (the remaining records
  keep their relative order) that holds every record with another identifier as often as
  before and no record with the identifier \<open>i\<close>. When exactly one record has the
  identifier, the result is the collection without that record. When no record has it,
  the state is returned as it was.
\<close>

theorem deleteTodo_removes_matching:
  "subseq (todos (deleteTodo i st)) (todos st) \<and>
   (\<forall>t. count (mset (todos (deleteTodo i st))) t =
          (if id_todo t = i then 0 else count (mset (todos st)) t)) \<and>
   (\<forall>pre r post. todos st = pre @ r # post \<and> id_todo r = i \<and>
        i \<notin> id_todo ` set pre \<and> i \<notin> id_todo ` set post \<longrightarrow>
        todos (deleteTodo i st) = pre @ post) \<and>
   (i \<notin> id_todo ` set (todos st) \<longrightarrow> deleteTodo i st = st)"
proof (intro conjI allI impI)
  show "subseq (todos (deleteTodo i st)) (todos st)"
    by (simp add: todos_deleteTodo)
next
  fix t
  show "count (mset (todos (deleteTodo i st))) t =
          (if id_todo t = i then 0 else count (mset (todos st)) t)"
    by (simp add: todos_deleteTodo)
next
  fix pre r post
  assume split: "todos st = pre @ r # post \<and> id_todo r = i \<and>
        i \<notin> id_todo ` set pre \<and> i \<notin> id_todo ` set post"
  then have "filter (\<lambda>todo. id_todo todo \<noteq> i) pre = pre"
    and "filter (\<lambda>todo. id_todo todo \<noteq> i) post = post"
    by (auto simp: filter_id_conv image_iff)
  with split show "todos (deleteTodo i st) = pre @ post"
    by (simp add: todos_deleteTodo)
next
  assume "i \<notin> id_todo ` set (todos st)"
  then show "deleteTodo i st = st" by (rule deleteTodo_absent)
qed

theorem deleteTodo_removes_matching_witness:
  "todos shelf = [milk] @ bread # [] \<and> id_todo bread = 1700000000007 \<and>
   1700000000007 \<notin> id_todo ` set [milk] \<and>
   todos (deleteTodo 1700000000007 shelf) = [milk] \<and>
   42 \<notin> id_todo ` set (todos shelf) \<and> deleteTodo 42 shelf = shelf"
proof -
  have a: "todos shelf = [milk] @ bread # [] \<and> id_todo bread = 1700000000007 \<and>
      1700000000007 \<notin> id_todo ` set [milk] \<and> 1700000000007 \<notin> id_todo ` set ([]::Todo list)"
    by (simp add: shelf_def milk_def bread_def)
  have b: "42 \<notin> id_todo ` set (todos shelf)"
    by (simp add: shelf_def milk_def bread_def)
  from deleteTodo_removes_matching [of 1700000000007 shelf] a
  have "todos (deleteTodo 1700000000007 shelf) = [milk] @ []" by blast
  moreover from deleteTodo_removes_matching [of 42 shelf] b
  have "deleteTodo 42 shelf = shelf" by blast
  ultimately show ?thesis using a b by simp
qed

text \<open>
  Claim C10. When two records at different positions share the identifier \<open>i\<close>,
  \<open>toggleTodo i\<close> negates the completion flag of every record with that identifier, and
  \<open>deleteTodo i\<close> removes every one of them: no record with the identifier is left, and
  the collection is shorter by the number of matching records, which is at least two.
\<close>

theorem shared_id_all_affected:
  assumes "m < n" and "n < length (todos st)"
    and "id_todo (todos st ! m) = i" and "id_todo (todos st ! n) = i"
  shows "(\<forall>k<length (todos st). id_todo (todos st ! k) = i \<longrightarrow>
            completed (todos (toggleTodo i st) ! k) = (\<not> completed (todos st ! k))) \<and>
         (\<forall>t\<in>set (todos (deleteTodo i st)). id_todo t \<noteq> i) \<and>
         length (todos (deleteTodo i st)) =
           length (todos st) - length (filter (\<lambda>t. id_todo t = i) (todos st)) \<and>
         length (todos (deleteTodo i st)) + 2 \<le> length (todos st)"
proof -
  let ?xs = "todos st"
  let ?M = "{k. k < length ?xs \<and> id_todo (?xs ! k) = i}"
  have split: "length (filter (\<lambda>t. id_todo t = i) ?xs) +
      length (filter (\<lambda>t. id_todo t \<noteq> i) ?xs) = length ?xs"
    using sum_length_filter_compl [of "\<lambda>t. id_todo t = i" ?xs] by simp
  have "{m, n} \<subseteq> ?M" using assms by auto
  moreover have "finite ?M" by simp
  ultimately have "card {m, n} \<le> card ?M" by (rule card_mono [rotated])
  moreover have "card {m, n} = 2" using assms(1) by simp
  moreover have "length (filter (\<lambda>t. id_todo t = i) ?xs) = card ?M"
    by (simp add: length_filter_conv_card)
  ultimately have two: "2 \<le> length (filter (\<lambda>t. id_todo t = i) ?xs)" by simp
  have t: "\<forall>k<length ?xs. id_todo (?xs ! k) = i \<longrightarrow>
            completed (todos (toggleTodo i st) ! k) = (\<not> completed (?xs ! k))"
    by (simp add: todos_toggleTodo)
  have d: "\<forall>t\<in>set (todos (deleteTodo i st)). id_todo t \<noteq> i"
    by (simp add: todos_deleteTodo)
  have len: "length (todos (deleteTodo i st)) =
      length ?xs - length (filter (\<lambda>t. id_todo t = i) ?xs)"
    unfolding todos_deleteTodo using split by linarith
  have less: "length (todos (deleteTodo i st)) + 2 \<le> length ?xs"
    unfolding todos_deleteTodo using split two by linarith
  show ?thesis
    using t d len less by (intro conjI)
qed

theorem shared_id_all_affected_witness:
  "(0::nat) < 2 \<and> 2 < length (todos crowded) \<and>
   id_todo (todos crowded ! 0) = 1700000000000 \<and> id_todo (todos crowded ! 2) = 1700000000000 \<and>
   completed (todos (toggleTodo 1700000000000 crowded) ! 0) \<and>
   \<not> completed (todos (toggleTodo 1700000000000 crowded) ! 2) \<and>
   todos (deleteTodo 1700000000000 crowded) = [bread]"
proof -
  have h: "(0::nat) < 2" "2 < length (todos crowded)"
    "id_todo (todos crowded ! 0) = 1700000000000" "id_todo (todos crowded ! 2) = 1700000000000"
    by (simp_all add: crowded_def milk_def twin_def)
  have c: "\<not> completed (todos crowded ! 0)" "completed (todos crowded ! 2)"
    by (simp_all add: crowded_def milk_def twin_def)
  have del: "todos (deleteTodo 1700000000000 crowded) = [bread]"
    by (simp add: todos_deleteTodo crowded_def milk_def twin_def bread_def)
  note flips = shared_id_all_affected [OF h, THEN conjunct1, rule_format]
  have "completed (todos (toggleTodo 1700000000000 crowded) ! 0) =
      (\<not> completed (todos crowded ! 0))"
    by (rule flips) (simp_all add: crowded_def milk_def twin_def)
  moreover have "completed (todos (toggleTodo 1700000000000 crowded) ! 2) =
      (\<not> completed (todos crowded ! 2))"
    by (rule flips) (simp_all add: crowded_def milk_def twin_def)
  ultimately show ?thesis using h c del by simp
qed

text \<open>
  Claim C3, amended. When the title and the note both hold a code unit that is not white
  space, \<open>addTodo\<close> appends exactly one record: the collection grows by one, and the new
  record, the last one, has the title and the note of the input fields, completed = false,
  the clock reading \<open>Date.now()\<close> as its identifier and the time of \<open>new Date()\<close> as its
  creation date. The identifier is new to the collection exactly when no record already
  carries that clock reading. \<open>addTodo\<close> of \<open>src/src/TodoApp.tsx\<close> appends the same
  record without a creation date.
\<close>

theorem addTodo_appends_record:
  assumes "\<exists>c\<in>set (inputTitle st). \<not> isWhiteSpace c"
    and "\<exists>c\<in>set (inputNote st). \<not> isWhiteSpace c"
  shows "todos (addTodo now created st) =
           todos st @ [\<lparr> id_todo = now, title = inputTitle st, note_todo = inputNote st,
                         completed = False, dateCreated = Some (Date created) \<rparr>] \<and>
         length (todos (addTodo now created st)) = length (todos st) + 1 \<and>
         (id_todo (last (todos (addTodo now created st))) \<notin> id_todo ` set (todos st)) =
           (now \<notin> id_todo ` set (todos st)) \<and>
         todos (addTodo0 now st) =
           todos st @ [\<lparr> id_todo = now, title = inputTitle st, note_todo = inputNote st,
                         completed = False, dateCreated = None \<rparr>]"
proof -
  from assms have "trim (inputTitle st) \<noteq> []" and "trim (inputNote st) \<noteq> []"
    by (simp_all add: trim_empty_iff)
  then show ?thesis by (simp add: addTodo_def addTodo0_def)
qed

lemma shelf_inputs:
  "\<exists>c\<in>set (inputTitle shelf). \<not> isWhiteSpace c"
  "\<exists>c\<in>set (inputNote shelf). \<not> isWhiteSpace c"
  by (simp_all add: shelf_def js_def isWhiteSpace_def)

theorem addTodo_appends_record_witness:
  "(\<exists>c\<in>set (inputTitle shelf). \<not> isWhiteSpace c) \<and>
   (\<exists>c\<in>set (inputNote shelf). \<not> isWhiteSpace c) \<and>
   todos (addTodo 1700000000999 1700000001000 shelf) =
     [milk, bread, \<lparr> id_todo = 1700000000999, title = js ''Call home'',
        note_todo = js ''after six'', completed = False,
        dateCreated = Some (Date 1700000001000) \<rparr>] \<and>
   todos (addTodo0 1700000000999 shelf) =
     [milk, bread, \<lparr> id_todo = 1700000000999, title = js ''Call home'',
        note_todo = js ''after six'', completed = False, dateCreated = None \<rparr>]"
  using addTodo_appends_record [OF shelf_inputs, of 1700000000999 1700000001000] shelf_inputs
  by (simp add: shelf_def)

text \<open>
  Claim C3 as stated fails: with a title and a note that are not blank, and a clock that
  reads the identifier of a stored record, the identifier of the new record is not fresh.
\<close>

theorem addTodo_id_not_fresh:
  "trim (inputTitle shelf) \<noteq> [] \<and> trim (inputNote shelf) \<noteq> [] \<and>
   id_todo (last (todos (addTodo 1700000000000 1700000000001 shelf))) \<in>
     id_todo ` set (todos shelf)"
  by (simp add: addTodo_def shelf_def milk_def bread_def trim_def js_def isWhiteSpace_def)

text \<open>
  Claim C4. When the title or the note is empty or holds white space only, \<open>addTodo\<close>
  (of either source file) returns the state as it was: the collection is unchanged.
\<close>

theorem addTodo_blank_noop:
  assumes "(\<forall>c\<in>set (inputTitle st). isWhiteSpace c) \<or>
           (\<forall>c\<in>set (inputNote st). isWhiteSpace c)"
  shows "addTodo now created st = st \<and> addTodo0 now st = st"
proof -
  from assms have "trim (inputTitle st) = [] \<or> trim (inputNote st) = []"
    by (simp add: trim_empty_iff)
  then show ?thesis by (auto simp: addTodo_def addTodo0_def)
qed

theorem addTodo_blank_noop_witness:
  "(\<exists>c\<in>set (inputTitle (shelf \<lparr> inputNote := js ''  '' \<rparr>)). \<not> isWhiteSpace c) \<and>
   addTodo 1700000000999 1700000001000 (shelf \<lparr> inputNote := js ''  '' \<rparr>) =
     shelf \<lparr> inputNote := js ''  '' \<rparr> \<and>
   addTodo0 1700000000999 crowded = crowded"
proof -
  have a: "(\<forall>c\<in>set (inputTitle (shelf \<lparr> inputNote := js ''  '' \<rparr>)). isWhiteSpace c) \<or>
      (\<forall>c\<in>set (inputNote (shelf \<lparr> inputNote := js ''  '' \<rparr>)). isWhiteSpace c)"
    by (simp add: js_def isWhiteSpace_def)
  have b: "(\<forall>c\<in>set (inputTitle crowded). isWhiteSpace c) \<or>
      (\<forall>c\<in>set (inputNote crowded). isWhiteSpace c)"
    by (simp add: crowded_def)
  have c: "\<exists>c\<in>set (inputTitle (shelf \<lparr> inputNote := js ''  '' \<rparr>)). \<not> isWhiteSpace c"
    by (simp add: shelf_def js_def isWhiteSpace_def)
  from addTodo_blank_noop [OF a] addTodo_blank_noop [OF b] c show ?thesis by blast
qed

lemma distinct_ids_step:
  assumes "distinct (map id_todo (todos st))"
    and "set (clock_readings [a]) \<inter> id_todo ` set (todos st) = {}"
  shows "distinct (map id_todo (todos (step st a)))"
proof (cases a)
  case (Add t n now created)
  with assms show ?thesis by (auto simp: ids_addTodo)
next
  case (Toggle i)
  with assms show ?thesis by (simp add: ids_toggleTodo)
next
  case (Delete i)
  with assms show ?thesis by (simp add: ids_deleteTodo)
qed

lemma ids_step_subset:
  "id_todo ` set (todos (step st a)) \<subseteq> id_todo ` set (todos st) \<union> set (clock_readings [a])"
proof (cases a)
  case (Add t n now created)
  have "set (map id_todo (todos (addTodo now created (st\<lparr>inputTitle := t, inputNote := n\<rparr>))))
      \<subseteq> set (map id_todo (todos st)) \<union> {now}"
    unfolding ids_addTodo by auto
  with Add show ?thesis by simp
next
  case (Toggle i)
  have "set (map id_todo (todos (toggleTodo i st))) = set (map id_todo (todos st))"
    unfolding ids_toggleTodo ..
  with Toggle show ?thesis by simp
next
  case (Delete i)
  have "set (map id_todo (todos (deleteTodo i st))) \<subseteq> set (map id_todo (todos st))"
    unfolding ids_deleteTodo by auto
  with Delete show ?thesis by auto
qed

lemma clock_readings_Cons:
  "clock_readings (a # acts) = clock_readings [a] @ clock_readings acts"
  by (cases a) simp_all

lemma distinct_ids_run:
  assumes "distinct (map id_todo (todos st))"
    and "distinct (clock_readings acts)"
    and "set (clock_readings acts) \<inter> id_todo ` set (todos st) = {}"
  shows "distinct (map id_todo (todos (run acts st)))"
  using assms
proof (induction acts arbitrary: st)
  case Nil
  then show ?case by (simp add: run_def)
next
  case (Cons a acts)
  have cr: "clock_readings (a # acts) = clock_readings [a] @ clock_readings acts"
    by (rule clock_readings_Cons)
  from Cons.prems(2) cr have d1: "distinct (clock_readings acts)"
    and d2: "set (clock_readings [a]) \<inter> set (clock_readings acts) = {}"
    by auto
  from Cons.prems(3) cr have f1: "set (clock_readings [a]) \<inter> id_todo ` set (todos st) = {}"
    and f2: "set (clock_readings acts) \<inter> id_todo ` set (todos st) = {}"
    by auto
  have s1: "distinct (map id_todo (todos (step st a)))"
    using Cons.prems(1) f1 by (rule distinct_ids_step)
  have s2: "set (clock_readings acts) \<inter> id_todo ` set (todos (step st a)) = {}"
    using ids_step_subset [of st a] d2 f2 by blast
  have "distinct (map id_todo (todos (run acts (step st a))))"
    using s1 d1 s2 by (rule Cons.IH)
  then show ?case by (simp add: run_def)
qed

lemma ids_addTodo0:
  "map id_todo (todos (addTodo0 now st)) =
     (if trim (inputTitle st) \<noteq> [] \<and> trim (inputNote st) \<noteq> []
      then map id_todo (todos st) @ [now] else map id_todo (todos st))"
  by (simp add: addTodo0_def Let_def)

lemma ids_step0:
  assumes "map id_todo (todos st0) = map id_todo (todos st)"
  shows "map id_todo (todos (step0 st0 a)) = map id_todo (todos (step st a))"
proof (cases a)
  case (Add t n now created)
  with assms show ?thesis by (simp add: ids_addTodo ids_addTodo0)
next
  case (Toggle i)
  with assms show ?thesis by (simp add: ids_toggleTodo)
next
  case (Delete i)
  with assms show ?thesis by (simp add: ids_deleteTodo)
qed

lemma ids_run0:
  assumes "map id_todo (todos st0) = map id_todo (todos st)"
  shows "map id_todo (todos (run0 acts st0)) = map id_todo (todos (run acts st))"
  using assms
proof (induction acts arbitrary: st0 st)
  case Nil
  then show ?case by (simp add: run_def run0_def)
next
  case (Cons a acts)
  from Cons.prems have "map id_todo (todos (step0 st0 a)) = map id_todo (todos (step st a))"
    by (rule ids_step0)
  then have "map id_todo (todos (run0 acts (step0 st0 a))) =
      map id_todo (todos (run acts (step st a)))"
    by (rule Cons.IH)
  then show ?case by (simp add: run_def run0_def)
qed

text \<open>
  Claim C9, amended. In a session that starts from the empty collection and in which no
  two additions read the same value from \<open>Date.now()\<close>, the identifiers of the records
  are pairwise distinct after every sequence of additions, toggles and deletions, with
  \<open>addTodo\<close> of either source file.
\<close>

theorem distinct_ids_when_clock_distinct:
  assumes "todos st = []" and "distinct (clock_readings acts)"
  shows "distinct (map id_todo (todos (run acts st))) \<and>
         distinct (map id_todo (todos (run0 acts st)))"
proof -
  have "distinct (map id_todo (todos (run acts st)))"
    using _ assms(2) by (rule distinct_ids_run) (simp_all add: assms(1))
  moreover have "map id_todo (todos (run0 acts st)) = map id_todo (todos (run acts st))"
    by (rule ids_run0) simp
  ultimately show ?thesis by simp
qed

theorem distinct_ids_when_clock_distinct_witness:
  "todos initial = [] \<and>
   distinct (clock_readings [Add (js ''Buy milk'') (js ''2 liters'') 1700000000000 1700000000000,
       Toggle 1700000000000, Add (js ''Buy bread'') (js ''rye'') 1700000000007 1700000000008,
       Delete 1700000000000]) \<and>
   map id_todo (todos (run [Add (js ''Buy milk'') (js ''2 liters'') 1700000000000 1700000000000,
       Toggle 1700000000000, Add (js ''Buy bread'') (js ''rye'') 1700000000007 1700000000008,
       Delete 1700000000000] initial)) = [1700000000007]"
proof -
  let ?acts = "[Add (js ''Buy milk'') (js ''2 liters'') 1700000000000 1700000000000,
       Toggle 1700000000000, Add (js ''Buy bread'') (js ''rye'') 1700000000007 1700000000008,
       Delete 1700000000000]"
  have e: "todos initial = []" by (simp add: initial_def)
  have d: "distinct (clock_readings ?acts)" by simp
  have "map id_todo (todos (run ?acts initial)) = [1700000000007]"
    by (simp add: run_def initial_def ids_addTodo addTodo_def toggleTodo_def deleteTodo_def
        trim_def js_def isWhiteSpace_def)
  with distinct_ids_when_clock_distinct [OF e d, THEN conjunct1] e d show ?thesis by simp
qed

text \<open>
  Claim C9 as stated fails: two additions that read the same clock value leave two records
  with one identifier.
\<close>

theorem same_clock_reading_same_id:
  "map id_todo (todos (run [Add (js ''Buy milk'') (js ''2 liters'') 1700000000000 1700000000000,
       Add (js ''Buy bread'') (js ''rye'') 1700000000000 1700000000000] initial)) =
     [1700000000000, 1700000000000] \<and>
   \<not> distinct (map id_todo (todos (run
       [Add (js ''Buy milk'') (js ''2 liters'') 1700000000000 1700000000000,
        Add (js ''Buy bread'') (js ''rye'') 1700000000000 1700000000000] initial)))"
  by (simp add: run_def initial_def addTodo_def trim_def js_def isWhiteSpace_def)

section \<open>Properties of the display order\<close>

lemma compareFn_valid:
  assumes "dateCreated a \<noteq> Some Invalid_Date" and "dateCreated b \<noteq> Some Invalid_Date"
  shows "compareFn a b = Some (created_ms b - created_ms a)"
proof -
  have k: "(case dateCreated t of Some d \<Rightarrow> getTime d | None \<Rightarrow> Some 0) = Some (created_ms t)"
    if "dateCreated t \<noteq> Some Invalid_Date" for t
  proof (cases "dateCreated t")
    case None
    then show ?thesis by (simp add: created_ms_def)
  next
    case (Some d)
    with that show ?thesis by (cases d) (simp_all add: created_ms_def)
  qed
  show ?thesis by (simp add: compareFn_def k [OF assms(1)] k [OF assms(2)])
qed

lemma insort_by_valid:
  assumes "dateCreated a \<noteq> Some Invalid_Date"
    and "\<forall>b\<in>set bs. dateCreated b \<noteq> Some Invalid_Date"
  shows "insort_by compareFn a bs = insort_key (\<lambda>t. - created_ms t) a bs"
  using assms(2)
proof (induction bs)
  case Nil
  then show ?case by simp
next
  case (Cons b bs)
  then have "compareFn a b = Some (created_ms b - created_ms a)"
    using assms(1) by (simp add: compareFn_valid)
  with Cons show ?case by simp
qed

lemma sort_by_valid:
  assumes "\<forall>t\<in>set xs. dateCreated t \<noteq> Some Invalid_Date"
  shows "sort_by compareFn xs = sort_key (\<lambda>t. - created_ms t) xs"
  using assms
proof (induction xs)
  case Nil
  then show ?case by (simp add: sort_by_def)
next
  case (Cons a xs)
  then have IH: "sort_by compareFn xs = sort_key (\<lambda>t. - created_ms t) xs" by simp
  have "sort_by compareFn (a # xs) = insort_by compareFn a (sort_by compareFn xs)"
    by (simp add: sort_by_def)
  also have "\<dots> = insort_by compareFn a (sort_key (\<lambda>t. - created_ms t) xs)"
    by (simp only: IH)
  also have "\<dots> = insort_key (\<lambda>t. - created_ms t) a (sort_key (\<lambda>t. - created_ms t) xs)"
    using Cons.prems by (intro insort_by_valid) simp_all
  finally show ?case by simp
qed

lemma sorted_wrt_desc:
  "sorted (map (\<lambda>t. - created_ms t) xs) \<longleftrightarrow> sorted_wrt (\<lambda>a b. created_ms b \<le> created_ms a) xs"
  by (induction xs) auto

lemma sorted_three:
  fixes f :: "'a \<Rightarrow> int"
  assumes m: "mset xs = {#r1, r2, r3#}"
    and k: "f r3 < f r2" "f r2 < f r1"
  shows "sort_key f xs = [r3, r2, r1]"
proof (rule properties_for_sort_key)
  show "mset [r3, r2, r1] = mset xs" using m by (simp add: add_mset_commute)
  show "sorted (map f [r3, r2, r1])" using k by simp
  fix a
  assume a: "a \<in> set [r3, r2, r1]"
  have "mset (filter (\<lambda>x. f a = f x) xs) = filter_mset (\<lambda>x. f a = f x) (mset xs)"
    by (rule mset_filter)
  also have "\<dots> = filter_mset (\<lambda>x. f a = f x) (mset [r3, r2, r1])"
    using m by (simp add: add_mset_commute)
  also have "\<dots> = mset (filter (\<lambda>x. f a = f x) [r3, r2, r1])"
    by (rule mset_filter [symmetric])
  finally have e: "mset (filter (\<lambda>x. f a = f x) xs) = mset (filter (\<lambda>x. f a = f x) [r3, r2, r1])" .
  have "\<exists>b. filter (\<lambda>x. f a = f x) [r3, r2, r1] = [b]"
    using a k by auto
  then obtain b where b: "filter (\<lambda>x. f a = f x) [r3, r2, r1] = [b]" ..
  from e have "mset (filter (\<lambda>x. f a = f x) xs) = mset [b]" unfolding b .
  then have "mset (filter (\<lambda>x. f a = f x) xs) = {#b#}" by (simp only: mset.simps)
  then have "filter (\<lambda>x. f a = f x) xs = [b]" by (rule mset_single_iff [THEN iffD1])
  with b show "filter (\<lambda>x. f a = f x) [r3, r2, r1] = filter (\<lambda>x. f a = f x) xs" by simp
qed

text \<open>
  Claim C5, amended. For every collection whose creation dates, where present, are valid,
  the display order is a rearrangement of the collection in descending order of creation
  time, a record without a creation date counting with the time 0 (the epoch), and records
  of equal time keeping their insertion order. So three records with the creation times
  T1 < T2 < T3 are shown in the order T3, T2, T1 whatever their insertion order, and a
  record without a creation date comes after every record created after the epoch.
\<close>

theorem sortedTodos_newest_first:
  assumes valid: "\<forall>t\<in>set (todos st). dateCreated t \<noteq> Some Invalid_Date"
  shows "mset (sortedTodos st) = mset (todos st) \<and>
         sorted_wrt (\<lambda>a b. created_ms b \<le> created_ms a) (sortedTodos st) \<and>
         (\<forall>k. filter (\<lambda>t. created_ms t = k) (sortedTodos st) =
               filter (\<lambda>t. created_ms t = k) (todos st)) \<and>
         (\<forall>r1 r2 r3 T1 T2 T3.
            mset (todos st) = {#r1, r2, r3#} \<and> dateCreated r1 = Some (Date T1) \<and>
            dateCreated r2 = Some (Date T2) \<and> dateCreated r3 = Some (Date T3) \<and>
            T1 < T2 \<and> T2 < T3 \<longrightarrow> sortedTodos st = [r3, r2, r1]) \<and>
         (\<forall>i j T. i < length (sortedTodos st) \<and> j < length (sortedTodos st) \<and>
            dateCreated (sortedTodos st ! i) = None \<and>
            dateCreated (sortedTodos st ! j) = Some (Date T) \<and> 0 < T \<longrightarrow> j < i)"
proof -
  let ?f = "\<lambda>t. - created_ms t"
  have eq: "sortedTodos st = sort_key ?f (todos st)"
    unfolding sortedTodos_def using valid by (rule sort_by_valid)
  have perm: "mset (sortedTodos st) = mset (todos st)"
    by (simp add: eq)
  have desc: "sorted_wrt (\<lambda>a b. created_ms b \<le> created_ms a) (sortedTodos st)"
    unfolding eq sorted_wrt_desc [symmetric] by (rule sorted_sort_key)
  have stable: "filter (\<lambda>t. created_ms t = k) (sortedTodos st) =
      filter (\<lambda>t. created_ms t = k) (todos st)" for k
    using sort_key_stable [of ?f "- k" "todos st"] by (simp add: eq)
  have three: "sortedTodos st = [r3, r2, r1]"
    if "mset (todos st) = {#r1, r2, r3#} \<and> dateCreated r1 = Some (Date T1) \<and>
        dateCreated r2 = Some (Date T2) \<and> dateCreated r3 = Some (Date T3) \<and>
        T1 < T2 \<and> T2 < T3" for r1 r2 r3 T1 T2 T3
    unfolding eq using that by (intro sorted_three) (simp_all add: created_ms_def)
  have last: "j < i"
    if h: "i < length (sortedTodos st) \<and> j < length (sortedTodos st) \<and>
        dateCreated (sortedTodos st ! i) = None \<and>
        dateCreated (sortedTodos st ! j) = Some (Date T) \<and> 0 < T" for i j T
  proof (rule ccontr)
    assume "\<not> j < i"
    moreover from h have "i \<noteq> j" by auto
    ultimately have "i < j" by simp
    with desc h have "created_ms (sortedTodos st ! j) \<le> created_ms (sortedTodos st ! i)"
      by (simp add: sorted_wrt_iff_nth_less)
    with h show False by (simp add: created_ms_def)
  qed
  from perm desc stable three last show ?thesis by blast
qed

theorem sortedTodos_newest_first_witness:
  "todos pantry = [bread, milk, eggs] \<and>
   dateCreated milk = Some (Date 1700000000000) \<and>
   dateCreated bread = Some (Date 1700000000008) \<and>
   dateCreated eggs = Some (Date 1700000000016) \<and>
   sortedTodos pantry = [eggs, bread, milk]"
proof -
  have v: "\<forall>t\<in>set (todos pantry). dateCreated t \<noteq> Some Invalid_Date"
    by (simp add: pantry_def milk_def bread_def eggs_def)
  have d: "todos pantry = [bread, milk, eggs]"
    "dateCreated milk = Some (Date 1700000000000)"
    "dateCreated bread = Some (Date 1700000000008)"
    "dateCreated eggs = Some (Date 1700000000016)"
    by (simp_all add: pantry_def milk_def bread_def eggs_def)
  have m: "mset (todos pantry) = {#milk, bread, eggs#}"
    by (simp add: d(1))
  note three = sortedTodos_newest_first [OF v, THEN conjunct2, THEN conjunct2, THEN conjunct2,
      THEN conjunct1, rule_format, of milk bread eggs 1700000000000 1700000000008 1700000000016]
  have "sortedTodos pantry = [eggs, bread, milk]"
    by (rule three) (simp add: m d)
  with d show ?thesis by simp
qed

text \<open>
  Claim C5 as stated fails: a record without a creation date is shown before a record
  dated before the epoch.
\<close>

theorem undated_before_dated:
  "todos attic = [moon, undated] \<and> dateCreated undated = None \<and>
   dateCreated moon = Some (Date (- 14182940000)) \<and>
   sortedTodos attic = [undated, moon]"
  by (simp add: attic_def sortedTodos_def sort_by_def compareFn_def undated_def moon_def)

text \<open>
  Claim C6. Computing the sorted view allocates a new array and sorts that one: the array
  of the state, as every array allocated before, holds the same records in the same order
  afterwards, and the new array holds the sorted view of the state's collection.
\<close>

theorem sortedTodos_heap_frame:
  assumes "r < length h"
  shows "\<exists>h' s. sortedTodos_heap h r = Some (h', s) \<and> s \<noteq> r \<and> s < length h' \<and>
           h' ! s = sort_by compareFn (h ! r) \<and>
           (\<forall>st. h ! r = todos st \<longrightarrow> h' ! s = sortedTodos st) \<and>
           h' ! r = h ! r \<and> (\<forall>q<length h. h' ! q = h ! q)"
  using assms
  by (simp add: sortedTodos_heap_def spread_def sort_in_place_def nth_append sortedTodos_def)

theorem sortedTodos_heap_frame_witness:
  "(0::nat) < length [todos pantry] \<and>
   sortedTodos_heap [todos pantry] 0 = Some ([[bread, milk, eggs], [eggs, bread, milk]], 1)"
proof -
  have h: "(0::nat) < length [todos pantry]" by simp
  from sortedTodos_heap_frame [OF h]
  obtain h' s where r: "sortedTodos_heap [todos pantry] 0 = Some (h', s)"
    and s: "h' ! s = sort_by compareFn ([todos pantry] ! 0)" by blast
  have "sortedTodos_heap [todos pantry] 0 = Some ([[bread, milk, eggs], [eggs, bread, milk]], 1)"
    by (simp add: sortedTodos_heap_def spread_def sort_in_place_def pantry_def sort_by_def
        compareFn_def milk_def bread_def eggs_def)
  with h r show ?thesis by simp
qed

section \<open>Properties of the persistence\<close>














end
